theory Spec2Isabelle
  imports Main "HOL-Library.Multiset"
begin

section \<open>The secret-message renderer\<close>

text \<open>
  A shallow embedding of \<^verbatim>\<open>decode_secret_message_from_text\<close> of
  \<^verbatim>\<open>Secret_message/secret_message.py\<close>. The function reads lines of the form
  \<^verbatim>\<open><char> <x> <y>\<close>, keeps those with three tokens and two integer coordinates, and
  writes each token into a grid of strings that it joins into the rendered text.

  A Python string is modelled as a \<^typ>\<open>string\<close>, each \<^typ>\<open>char\<close> standing for the
  code point of the same number, so the texts covered are those of code points below 256.
  The built-in methods the function calls (\<^verbatim>\<open>splitlines\<close>, \<^verbatim>\<open>strip\<close>,
  \<^verbatim>\<open>split\<close>, \<^verbatim>\<open>int\<close>, \<^verbatim>\<open>max\<close>, list indexing, \<^verbatim>\<open>join\<close>) are
  modelled as CPython behaves on such strings. Integers are unbounded, as Python's are.
  Memory is unbounded: a grid too large to allocate is outside the model.
\<close>

subsection \<open>Exceptions\<close>

datatype error = IndexError | ValueError

subsection \<open>String methods\<close>

text \<open>The code points below 256 for which \<^verbatim>\<open>str.isspace\<close> holds: the ones
  \<^verbatim>\<open>strip()\<close> removes and \<^verbatim>\<open>split()\<close> separates at.\<close>

definition is_space :: "char \<Rightarrow> bool" where
  "is_space c \<longleftrightarrow>
     c \<in> set [CHR 0x09, CHR 0x0A, CHR 0x0B, CHR 0x0C, CHR 0x0D, CHR 0x1C, CHR 0x1D,
               CHR 0x1E, CHR 0x1F, CHR 0x20, CHR 0x85, CHR 0xA0]"

text \<open>The line boundaries of \<^verbatim>\<open>str.splitlines\<close> below 256.\<close>

definition is_linebreak :: "char \<Rightarrow> bool" where
  "is_linebreak c \<longleftrightarrow>
     c \<in> set [CHR 0x0A, CHR 0x0B, CHR 0x0C, CHR 0x0D, CHR 0x1C, CHR 0x1D, CHR 0x1E, CHR 0x85]"

text \<open>\<^verbatim>\<open>text.splitlines()\<close>: the line breaks are dropped, a carriage return followed by
  a line feed is one break, and no empty line is produced after the last break.
  \<open>cur\<close> is the line read so far.\<close>

fun splitlines_from :: "string \<Rightarrow> string \<Rightarrow> string list" where
  "splitlines_from cur [] = (if cur = [] then [] else [cur])"
| "splitlines_from cur [c] = (if is_linebreak c then [cur] else [cur @ [c]])"
| "splitlines_from cur (c # d # ds) =
     (if c = CHR 0x0D \<and> d = CHR 0x0A then cur # splitlines_from [] ds
      else if is_linebreak c then cur # splitlines_from [] (d # ds)
      else splitlines_from (cur @ [c]) (d # ds))"

definition str_splitlines :: "string \<Rightarrow> string list" where
  "str_splitlines text = splitlines_from [] text"

text \<open>\<^verbatim>\<open>l.strip()\<close>: whitespace removed at both ends.\<close>

definition str_strip :: "string \<Rightarrow> string" where
  "str_strip s = rev (dropWhile is_space (rev (dropWhile is_space s)))"

text \<open>\<^verbatim>\<open>line.split()\<close>: the maximal runs of non-whitespace characters, in order.
  \<open>cur\<close> is the token read so far.\<close>

fun split_from :: "string \<Rightarrow> string \<Rightarrow> string list" where
  "split_from cur [] = (if cur = [] then [] else [cur])"
| "split_from cur (c # cs) =
     (if is_space c then (if cur = [] then split_from [] cs else cur # split_from [] cs)
      else split_from (cur @ [c]) cs)"

definition str_split :: "string \<Rightarrow> string list" where
  "str_split s = split_from [] s"

text \<open>\<^verbatim>\<open>sep.join(xs)\<close>.\<close>

fun str_join :: "string \<Rightarrow> string list \<Rightarrow> string" where
  "str_join sep [] = []"
| "str_join sep [x] = x"
| "str_join sep (x # y # ys) = x @ sep @ str_join sep (y # ys)"

subsection \<open>Integer parsing\<close>

text \<open>
  \<^verbatim>\<open>int(s)\<close> in base 10: whitespace is removed at both ends (of the separators above,
  \<^verbatim>\<open>int\<close> does not remove the code points 0x1C to 0x1F), then comes an optional sign and
  a non-empty run of decimal digits in which single underscores may stand between two
  digits. Below 256 the decimal digits are \<^verbatim>\<open>0\<close> to \<^verbatim>\<open>9\<close>. Anything else raises
  \<^verbatim>\<open>ValueError\<close>, here \<open>None\<close>.

  CPython 3.11 and later also raise \<^verbatim>\<open>ValueError\<close> when the digits are more than 640
  and more than the interpreter's limit (\<^verbatim>\<open>sys.get_int_max_str_digits()\<close>, 4300 unless
  configured, 0 for no limit). The limit is the parameter \<open>lim\<close> of the model;
  \<open>lim = 0\<close> is also the behaviour of the older interpreters.
\<close>

definition is_int_space :: "char \<Rightarrow> bool" where
  "is_int_space c \<longleftrightarrow>
     c \<in> set [CHR 0x09, CHR 0x0A, CHR 0x0B, CHR 0x0C, CHR 0x0D, CHR 0x20, CHR 0x85, CHR 0xA0]"

definition is_digit :: "char \<Rightarrow> bool" where
  "is_digit c \<longleftrightarrow> c \<in> set ''0123456789''"

definition digit_val :: "char \<Rightarrow> int" where
  "digit_val c = int (of_char c) - 48"

text \<open>The scan over digits and underscores: \<open>prev\<close> is the character before, \<open>n\<close> the
  number of digits read and \<open>acc\<close> their value.\<close>

fun scan_digits :: "char \<Rightarrow> nat \<Rightarrow> int \<Rightarrow> string \<Rightarrow> (nat \<times> int) option" where
  "scan_digits prev n acc [] = (if prev = CHR ''_'' then None else Some (n, acc))"
| "scan_digits prev n acc (c # cs) =
     (if c = CHR ''_'' then (if prev = CHR ''_'' then None else scan_digits c n acc cs)
      else if is_digit c then scan_digits c (Suc n) (acc * 10 + digit_val c) cs
      else None)"

definition py_int :: "nat \<Rightarrow> string \<Rightarrow> int option" where
  "py_int lim s =
     (let t = rev (dropWhile is_int_space (rev (dropWhile is_int_space s)));
          neg = (t \<noteq> [] \<and> hd t = CHR ''-'');
          body = (if t \<noteq> [] \<and> (hd t = CHR ''+'' \<or> hd t = CHR ''-'') then tl t else t)
      in case body of
           [] \<Rightarrow> None
         | c # cs \<Rightarrow>
             if c = CHR ''_'' then None
             else (case scan_digits (CHR 0x00) 0 0 body of
                     None \<Rightarrow> None
                   | Some (digits, v) \<Rightarrow>
                       if 640 < digits \<and> 0 < lim \<and> lim < digits then None
                       else Some (if neg then - v else v)))"

text \<open>\<^verbatim>\<open>max(xs)\<close>, which raises \<^verbatim>\<open>ValueError\<close> on an empty sequence.\<close>

fun py_max :: "int list \<Rightarrow> error + int" where
  "py_max [] = Inl ValueError"
| "py_max (x # xs) = Inr (fold max xs x)"

text \<open>The position that the index \<open>i\<close> selects in a list of length \<open>n\<close>: a negative index
  counts from the end, and an index outside \<open>-n \<le> i < n\<close> raises \<^verbatim>\<open>IndexError\<close>,
  here \<open>None\<close>.\<close>

definition list_index :: "int \<Rightarrow> nat \<Rightarrow> nat option" where
  "list_index i n =
     (let j = (if i < 0 then i + int n else i)
      in if j < 0 \<or> int n \<le> j then None else Some (nat j))"

subsection \<open>The decoder\<close>

text \<open>An element of \<^verbatim>\<open>coords\<close>: the token, \<open>x\<close> and \<open>y\<close>.\<close>

type_synonym entry = "string \<times> int \<times> int"

type_synonym grid = "string list list"

text \<open>\<^verbatim>\<open>lines = [ln for ln in (l.strip() for l in text.splitlines()) if ln]\<close>\<close>

definition stripped_lines :: "string \<Rightarrow> string list" where
  "stripped_lines text = filter (\<lambda>ln. ln \<noteq> []) (map str_strip (str_splitlines text))"

text \<open>The body of the first loop on one line: \<open>None\<close> where the source says
  \<^verbatim>\<open>continue\<close>, the tuple it appends otherwise.\<close>

definition parse_line :: "nat \<Rightarrow> string \<Rightarrow> entry option" where
  "parse_line lim line =
     (let parts = str_split line
      in if length parts \<noteq> 3 then None
         else (case py_int lim (parts ! 1) of
                 None \<Rightarrow> None
               | Some x \<Rightarrow>
                   (case py_int lim (parts ! 2) of
                      None \<Rightarrow> None
                    | Some y \<Rightarrow> Some (parts ! 0, x, y))))"

fun collect_coords :: "nat \<Rightarrow> string list \<Rightarrow> entry list" where
  "collect_coords lim [] = []"
| "collect_coords lim (line # rest) =
     (case parse_line lim line of
        None \<Rightarrow> collect_coords lim rest
      | Some e \<Rightarrow> e # collect_coords lim rest)"

definition parse_coords :: "nat \<Rightarrow> string \<Rightarrow> entry list" where
  "parse_coords lim text = collect_coords lim (stripped_lines text)"

text \<open>\<^verbatim>\<open>[[" " for _ in range(max_x + 1)] for _ in range(max_y + 1)]\<close>; a range up to a
  number that is not positive is empty.\<close>

definition blank_grid :: "int \<Rightarrow> int \<Rightarrow> grid" where
  "blank_grid max_x max_y = replicate (nat (max_y + 1)) (replicate (nat (max_x + 1)) '' '')"

text \<open>The second loop, \<^verbatim>\<open>grid[y][x] = char\<close> for each entry in order: the row is
  looked up first, then the cell is assigned.\<close>

fun place_all :: "entry list \<Rightarrow> grid \<Rightarrow> error + grid" where
  "place_all [] g = Inr g"
| "place_all ((c, x, y) # es) g =
     (case list_index y (length g) of
        None \<Rightarrow> Inl IndexError
      | Some r \<Rightarrow>
          (case list_index x (length (g ! r)) of
             None \<Rightarrow> Inl IndexError
           | Some k \<Rightarrow> place_all es (g[r := (g ! r)[k := c]])))"

definition build_grid :: "entry list \<Rightarrow> error + grid" where
  "build_grid coords =
     (case py_max (map (\<lambda>(c, x, y). x) coords) of
        Inl e \<Rightarrow> Inl e
      | Inr max_x \<Rightarrow>
          (case py_max (map (\<lambda>(c, x, y). y) coords) of
             Inl e \<Rightarrow> Inl e
           | Inr max_y \<Rightarrow> place_all coords (blank_grid max_x max_y)))"

text \<open>\<^verbatim>\<open>"\n".join("".join(row) for row in grid)\<close>\<close>

definition join_rows :: "grid \<Rightarrow> string" where
  "join_rows g = str_join [CHR 0x0A] (map concat g)"

definition render_coords :: "entry list \<Rightarrow> error + string" where
  "render_coords coords =
     (if coords = [] then Inr []
      else (case build_grid coords of Inl e \<Rightarrow> Inl e | Inr g \<Rightarrow> Inr (join_rows g)))"

definition decode_secret_message_from_text :: "nat \<Rightarrow> string \<Rightarrow> error + string" where
  "decode_secret_message_from_text lim text = render_coords (parse_coords lim text)"

subsection \<open>The built-in sample\<close>

definition SAMPLE :: string where
  "SAMPLE = ''H 0 0'' @ [CHR 0x0A] @ ''E 1 0'' @ [CHR 0x0A] @ ''L 2 0'' @ [CHR 0x0A]
     @ ''L 3 0'' @ [CHR 0x0A] @ ''O 4 0'' @ [CHR 0x0A] @ ''W 0 1'' @ [CHR 0x0A]
     @ ''O 1 1'' @ [CHR 0x0A] @ ''R 2 1'' @ [CHR 0x0A] @ ''L 3 1'' @ [CHR 0x0A]
     @ ''D 4 1'' @ [CHR 0x0A]"

definition SAMPLE_EXPECT :: string where
  "SAMPLE_EXPECT = ''HELLO'' @ [CHR 0x0A] @ ''WORLD''"

section \<open>Properties\<close>

subsection \<open>Evaluation of the model\<close>

lemmas decode_defs =
  decode_secret_message_from_text_def parse_coords_def stripped_lines_def
  str_splitlines_def is_linebreak_def str_strip_def is_space_def parse_line_def str_split_def
  py_int_def is_int_space_def is_digit_def digit_val_def render_coords_def build_grid_def
  blank_grid_def list_index_def join_rows_def eval_nat_numeral

lemma sample_renders: "decode_secret_message_from_text lim SAMPLE = Inr SAMPLE_EXPECT"
  by (simp add: decode_defs SAMPLE_def SAMPLE_EXPECT_def)

lemma sample_expect_renders: "decode_secret_message_from_text lim SAMPLE_EXPECT = Inr []"
  by (simp add: decode_defs SAMPLE_EXPECT_def)

subsection \<open>Tokens and stripped lines\<close>

lemma split_from_spaces:
  "\<forall>c\<in>set ws. is_space c \<Longrightarrow> split_from cur ws = (if cur = [] then [] else [cur])"
  by (induction ws arbitrary: cur) auto

lemma split_from_append_spaces:
  "\<forall>c\<in>set ws. is_space c \<Longrightarrow> split_from cur (s @ ws) = split_from cur s"
  by (induction s arbitrary: cur) (auto simp: split_from_spaces)

lemma split_from_dropWhile: "split_from [] (dropWhile is_space s) = split_from [] s"
  by (induction s) auto

lemma rev_dropWhile_decomp:
  "s = rev (dropWhile P (rev s)) @ rev (takeWhile P (rev s))"
proof -
  have "rev (dropWhile P (rev s)) @ rev (takeWhile P (rev s))
      = rev (takeWhile P (rev s) @ dropWhile P (rev s))"
    by (simp only: rev_append)
  also have "\<dots> = s" by (simp only: takeWhile_dropWhile_id rev_rev_ident)
  finally show ?thesis by simp
qed

text \<open>Stripping a line does not change its tokens.\<close>

lemma str_split_strip: "str_split (str_strip l) = str_split l"
proof -
  let ?d = "dropWhile is_space l"
  have ws: "\<forall>c\<in>set (rev (takeWhile is_space (rev ?d))). is_space c"
    by (auto dest: set_takeWhileD)
  have "split_from [] ?d = split_from [] (str_strip l @ rev (takeWhile is_space (rev ?d)))"
    unfolding str_strip_def using rev_dropWhile_decomp [of ?d is_space] by simp
  also have "\<dots> = split_from [] (str_strip l)"
    using ws by (rule split_from_append_spaces)
  finally show ?thesis by (simp add: str_split_def split_from_dropWhile)
qed

lemma str_strip_Nil_split: "str_strip l = [] \<Longrightarrow> str_split l = []"
  using str_split_strip [of l] by (simp add: str_split_def)

text \<open>A token is not empty and holds no whitespace, so no line feed.\<close>

lemma split_from_tokens:
  "t \<in> set (split_from cur s) \<Longrightarrow> \<forall>c\<in>set cur. \<not> is_space c
     \<Longrightarrow> t \<noteq> [] \<and> (\<forall>c\<in>set t. \<not> is_space c)"
proof (induction s arbitrary: cur)
  case Nil
  then show ?case by (auto split: if_splits)
next
  case (Cons a s)
  show ?case
  proof (cases "is_space a")
    case True
    with Cons.prems have "t = cur \<and> cur \<noteq> [] \<or> t \<in> set (split_from [] s)"
      by (auto split: if_splits)
    then show ?thesis using Cons.IH [of "[]"] Cons.prems(2) by auto
  next
    case False
    with Cons.prems have "t \<in> set (split_from (cur @ [a]) s)" by simp
    moreover have "\<forall>c\<in>set (cur @ [a]). \<not> is_space c" using False Cons.prems(2) by auto
    ultimately show ?thesis by (rule Cons.IH)
  qed
qed

lemma str_split_tokens:
  "t \<in> set (str_split s) \<Longrightarrow> t \<noteq> [] \<and> (\<forall>c\<in>set t. \<not> is_space c)"
  using split_from_tokens [of t "[]" s] by (simp add: str_split_def)

subsection \<open>Lines and entries\<close>

lemma parse_line_strip: "parse_line lim (str_strip l) = parse_line lim l"
  by (simp add: parse_line_def str_split_strip)

lemma parse_line_blank: "str_strip l = [] \<Longrightarrow> parse_line lim l = None"
  by (simp add: parse_line_def str_strip_Nil_split)

lemma collect_coords_append:
  "collect_coords lim (a @ b) = collect_coords lim a @ collect_coords lim b"
  by (induction a) (auto split: option.splits)

lemma collect_coords_stripped:
  "collect_coords lim (filter (\<lambda>ln. ln \<noteq> []) (map str_strip ls)) = collect_coords lim ls"
proof (induction ls)
  case Nil
  show ?case by simp
next
  case (Cons l ls)
  show ?case
  proof (cases "str_strip l = []")
    case True
    then show ?thesis using Cons.IH by (simp add: parse_line_blank)
  next
    case False
    then show ?thesis using Cons.IH by (simp add: parse_line_strip split: option.splits)
  qed
qed

text \<open>The entries of a text are those of its lines as \<^verbatim>\<open>splitlines\<close> gives them.\<close>

lemma parse_coords_lines: "parse_coords lim text = collect_coords lim (str_splitlines text)"
  by (simp add: parse_coords_def stripped_lines_def collect_coords_stripped)

lemma collect_coords_None:
  "\<forall>l\<in>set ls. parse_line lim l = None \<Longrightarrow> collect_coords lim ls = []"
  by (induction ls) auto

lemma collect_coords_mem:
  "l \<in> set ls \<Longrightarrow> parse_line lim l = Some e \<Longrightarrow> e \<in> set (collect_coords lim ls)"
  by (induction ls) (auto split: option.splits)

lemma mset_collect_coords:
  "mset (collect_coords lim ls)
     = image_mset (\<lambda>l. the (parse_line lim l)) (filter_mset (\<lambda>l. parse_line lim l \<noteq> None) (mset ls))"
proof (induction ls)
  case Nil
  show ?case by simp
next
  case (Cons l ls)
  then show ?case by (cases "parse_line lim l") auto
qed

lemma splitlines_from_chars:
  "l \<in> set (splitlines_from cur s) \<Longrightarrow> set l \<subseteq> set cur \<union> set s"
proof (induction cur s rule: splitlines_from.induct)
  case (1 cur)
  then show ?case by (auto split: if_splits)
next
  case (2 cur c)
  then show ?case by (auto split: if_splits)
next
  case (3 cur c d ds)
  show ?case
  proof (cases "c = CHR 0x0D \<and> d = CHR 0x0A")
    case True
    with 3(1) [OF True] 3(4) show ?thesis by auto
  next
    case nocrlf: False
    show ?thesis
    proof (cases "is_linebreak c")
      case True
      with 3(2) [OF nocrlf True] 3(4) nocrlf show ?thesis by auto
    next
      case False
      with 3(3) [OF nocrlf False] 3(4) nocrlf show ?thesis by auto
    qed
  qed
qed

lemma str_splitlines_chars: "l \<in> set (str_splitlines s) \<Longrightarrow> set l \<subseteq> set s"
  using splitlines_from_chars [of l "[]" s] by (simp add: str_splitlines_def)

lemma str_split_spaces: "\<forall>c\<in>set l. is_space c \<Longrightarrow> str_split l = []"
  by (simp add: str_split_def split_from_spaces)


lemma decode_lines:
  "decode_secret_message_from_text lim text
     = render_coords (collect_coords lim (str_splitlines text))"
  by (simp add: decode_secret_message_from_text_def parse_coords_lines)

lemma py_max_Max: "xs \<noteq> [] \<Longrightarrow> py_max xs = Inr (Max (set xs))"
  by (cases xs) (simp_all add: Max.set_eq_fold [symmetric])

lemma malformed_parse_line:
  "length (str_split l) \<noteq> 3 \<or> py_int lim (str_split l ! 1) = None
     \<or> py_int lim (str_split l ! 2) = None \<Longrightarrow> parse_line lim l = None"
  by (auto simp: parse_line_def Let_def split: option.splits)

subsection \<open>Writing into the grid\<close>

lemma list_index_less: "list_index i n = Some j \<Longrightarrow> j < n"
  by (auto simp: list_index_def Let_def split: if_splits)

lemma place_all_append:
  "place_all (a @ b) g = (case place_all a g of Inl e \<Rightarrow> Inl e | Inr g1 \<Rightarrow> place_all b g1)"
proof (induction a arbitrary: g)
  case Nil
  show ?case by simp
next
  case (Cons e a)
  obtain c x y where e: "e = (c, x, y)" by (cases e)
  show ?case unfolding e by (simp add: Cons.IH split: option.splits)
qed

text \<open>A grid of \<open>R\<close> rows of \<open>C\<close> cells each keeps that shape under the assignments.\<close>

lemma update_rect:
  "length g = R \<Longrightarrow> \<forall>row\<in>set g. length row = C
     \<Longrightarrow> length (g[r := (g ! r)[k := c]]) = R
         \<and> (\<forall>row\<in>set (g[r := (g ! r)[k := c]]). length row = C)"
proof -
  assume len: "length g = R" and rows: "\<forall>row\<in>set g. length row = C"
  have "\<forall>row\<in>set (g[r := (g ! r)[k := c]]). length row = C"
  proof
    fix row assume m: "row \<in> set (g[r := (g ! r)[k := c]])"
    have "set (g[r := (g ! r)[k := c]]) \<subseteq> insert ((g ! r)[k := c]) (set g)"
      by (rule set_update_subset_insert)
    with m have "row = (g ! r)[k := c] \<or> row \<in> set g" by blast
    then show "length row = C"
    proof
      assume eq: "row = (g ! r)[k := c]"
      show ?thesis
      proof (cases "r < length g")
        case True
        then have "g ! r \<in> set g" by simp
        with rows eq show ?thesis by simp
      next
        case False
        then have "length g \<le> r" by simp
        then have "g[r := (g ! r)[k := c]] = g" by (rule list_update_beyond)
        with m rows show ?thesis by simp
      qed
    next
      assume "row \<in> set g"
      with rows show ?thesis by simp
    qed
  qed
  with len show ?thesis by simp
qed

lemma place_all_rect:
  "place_all es g = Inr g' \<Longrightarrow> length g = R \<Longrightarrow> \<forall>row\<in>set g. length row = C
     \<Longrightarrow> length g' = R \<and> (\<forall>row\<in>set g'. length row = C)"
proof (induction es arbitrary: g)
  case Nil
  then show ?case by simp
next
  case (Cons e es)
  obtain c x y where e: "e = (c, x, y)" by (cases e)
  from Cons.prems(1) obtain r k where r: "list_index y (length g) = Some r"
    and k: "list_index x (length (g ! r)) = Some k"
    and rest: "place_all es (g[r := (g ! r)[k := c]]) = Inr g'"
    unfolding e by (auto split: option.splits)
  from update_rect [OF Cons.prems(2,3), of r k c]
  show ?case using Cons.IH [OF rest] by blast
qed

text \<open>The assignments succeed when every index is in range, and only then.\<close>

lemma place_all_total:
  "length g = R \<Longrightarrow> \<forall>row\<in>set g. length row = C
     \<Longrightarrow> \<forall>(c, x, y)\<in>set es. list_index y R \<noteq> None \<and> list_index x C \<noteq> None
     \<Longrightarrow> \<exists>g'. place_all es g = Inr g'"
proof (induction es arbitrary: g)
  case Nil
  show ?case by simp
next
  case (Cons e es)
  obtain c x y where e: "e = (c, x, y)" by (cases e)
  from Cons.prems(3) obtain r k where r: "list_index y R = Some r" and k: "list_index x C = Some k"
    unfolding e by auto
  from r have "r < R" by (rule list_index_less)
  with Cons.prems(1,2) have row: "length (g ! r) = C" by simp
  from Cons.prems(3) have rest: "\<forall>(c, x, y)\<in>set es. list_index y R \<noteq> None \<and> list_index x C \<noteq> None"
    by simp
  from update_rect [OF Cons.prems(1,2), of r k c]
  have "\<exists>g'. place_all es (g[r := (g ! r)[k := c]]) = Inr g'"
    using Cons.IH [OF _ _ rest] by blast
  then show ?case unfolding e using r k row Cons.prems(1) by simp
qed

lemma place_all_in_range:
  "place_all es g = Inr g' \<Longrightarrow> length g = R \<Longrightarrow> \<forall>row\<in>set g. length row = C
     \<Longrightarrow> (c, x, y) \<in> set es \<Longrightarrow> list_index y R \<noteq> None \<and> list_index x C \<noteq> None"
proof (induction es arbitrary: g)
  case Nil
  then show ?case by simp
next
  case (Cons e es)
  obtain c' x' y' where e: "e = (c', x', y')" by (cases e)
  from Cons.prems(1) obtain r k where r: "list_index y' (length g) = Some r"
    and k: "list_index x' (length (g ! r)) = Some k"
    and rest: "place_all es (g[r := (g ! r)[k := c']]) = Inr g'"
    unfolding e by (auto split: option.splits)
  from r have "r < length g" by (rule list_index_less)
  with Cons.prems(2,3) have row: "length (g ! r) = C" by simp
  show ?case
  proof (cases "(c, x, y) = e")
    case True
    then show ?thesis using e r k row Cons.prems(2) by simp
  next
    case False
    with Cons.prems(4) have mem: "(c, x, y) \<in> set es" by simp
    from update_rect [OF Cons.prems(2,3), of r k c']
    show ?thesis using Cons.IH [OF rest _ _ mem] by blast
  qed
qed

text \<open>A cell that no entry addresses keeps its content.\<close>

lemma place_all_untouched:
  "place_all es g = Inr g' \<Longrightarrow> length g = R \<Longrightarrow> \<forall>row\<in>set g. length row = C
     \<Longrightarrow> \<forall>(c, x, y)\<in>set es. \<not> (list_index y R = Some r \<and> list_index x C = Some k)
     \<Longrightarrow> g' ! r ! k = g ! r ! k"
proof (induction es arbitrary: g)
  case Nil
  then show ?case by simp
next
  case (Cons e es)
  obtain c' x' y' where e: "e = (c', x', y')" by (cases e)
  from Cons.prems(1) obtain r' k' where r: "list_index y' (length g) = Some r'"
    and k: "list_index x' (length (g ! r')) = Some k'"
    and rest: "place_all es (g[r' := (g ! r')[k' := c']]) = Inr g'"
    unfolding e by (auto split: option.splits)
  from r have rlt: "r' < length g" by (rule list_index_less)
  with Cons.prems(2,3) have row: "length (g ! r') = C" by simp
  from Cons.prems(4) have ne: "\<not> (r' = r \<and> k' = k)"
    unfolding e using r k row Cons.prems(2) by auto
  from Cons.prems(4) have others:
    "\<forall>(c, x, y)\<in>set es. \<not> (list_index y R = Some r \<and> list_index x C = Some k)" by simp
  from update_rect [OF Cons.prems(2,3), of r' k' c']
  have "g' ! r ! k = (g[r' := (g ! r')[k' := c']]) ! r ! k"
    using Cons.IH [OF rest _ _ others] by blast
  also have "\<dots> = g ! r ! k"
  proof (cases "r' = r")
    case True
    with ne have "k' \<noteq> k" by simp
    with True rlt show ?thesis by simp
  next
    case False
    then show ?thesis by simp
  qed
  finally show ?case .
qed

text \<open>The last entry that addresses a cell decides its content.\<close>

lemma place_all_last:
  assumes ok: "place_all (pre @ (c, x, y) # post) g = Inr g'"
    and len: "length g = R" and rows: "\<forall>row\<in>set g. length row = C"
    and r: "list_index y R = Some r" and k: "list_index x C = Some k"
    and later: "\<forall>(c', x', y')\<in>set post. \<not> (list_index y' R = Some r \<and> list_index x' C = Some k)"
  shows "g' ! r ! k = c"
proof -
  from ok obtain g1 where g1: "place_all pre g = Inr g1"
    and ok1: "place_all ((c, x, y) # post) g1 = Inr g'"
    by (auto simp: place_all_append split: sum.splits)
  from place_all_rect [OF g1 len rows]
  have len1: "length g1 = R" and rows1: "\<forall>row\<in>set g1. length row = C" by blast+
  from r have rlt: "r < R" by (rule list_index_less)
  from k have klt: "k < C" by (rule list_index_less)
  from rlt len1 rows1 have row1: "length (g1 ! r) = C" by simp
  let ?g2 = "g1[r := (g1 ! r)[k := c]]"
  from ok1 have ok2: "place_all post ?g2 = Inr g'" using r k len1 row1 by simp
  from update_rect [OF len1 rows1, of r k c]
  have "g' ! r ! k = ?g2 ! r ! k"
    using place_all_untouched [OF ok2 _ _ later] by blast
  also have "\<dots> = c" using rlt klt len1 row1 by simp
  finally show ?thesis .
qed

text \<open>Every cell holds what it held before or the whole token of an entry that
  addresses it.\<close>

lemma place_all_cells:
  assumes ok: "place_all es g = Inr g'"
    and len: "length g = R" and rows: "\<forall>row\<in>set g. length row = C"
  shows "g' ! r ! k = g ! r ! k
     \<or> (\<exists>(c, x, y)\<in>set es. g' ! r ! k = c \<and> list_index y R = Some r \<and> list_index x C = Some k)"
proof (cases "\<exists>e\<in>set es. case e of (c, x, y) \<Rightarrow> list_index y R = Some r \<and> list_index x C = Some k")
  case True
  then obtain pre e post where es: "es = pre @ e # post"
    and e: "case e of (c, x, y) \<Rightarrow> list_index y R = Some r \<and> list_index x C = Some k"
    and later: "\<forall>z\<in>set post. \<not> (case z of (c, x, y) \<Rightarrow> list_index y R = Some r \<and> list_index x C = Some k)"
    using split_list_last_prop [of es "\<lambda>e. case e of (c, x, y) \<Rightarrow> list_index y R = Some r \<and> list_index x C = Some k"]
    by blast
  obtain c x y where exy: "e = (c, x, y)" by (cases e)
  from e exy have r: "list_index y R = Some r" and k: "list_index x C = Some k" by simp_all
  from later have later': "\<forall>(c', x', y')\<in>set post. \<not> (list_index y' R = Some r \<and> list_index x' C = Some k)"
    by auto
  from ok have "g' ! r ! k = c"
    unfolding es exy using len rows r k later' by (rule place_all_last)
  moreover have "(c, x, y) \<in> set es" using es exy by simp
  ultimately show ?thesis using r k by blast
next
  case False
  then have "\<forall>(c, x, y)\<in>set es. \<not> (list_index y R = Some r \<and> list_index x C = Some k)"
    by auto
  with ok len rows have "g' ! r ! k = g ! r ! k" by (rule place_all_untouched)
  then show ?thesis by simp
qed

subsection \<open>The built grid\<close>

lemma blank_grid_length: "length (blank_grid mx my) = nat (my + 1)"
  by (simp add: blank_grid_def)

lemma blank_grid_rows: "\<forall>row\<in>set (blank_grid mx my). length row = nat (mx + 1)"
  by (simp add: blank_grid_def)

lemma blank_grid_cell:
  "r < nat (my + 1) \<Longrightarrow> k < nat (mx + 1) \<Longrightarrow> blank_grid mx my ! r ! k = '' ''"
  by (simp add: blank_grid_def)

lemma build_grid_place:
  "es \<noteq> [] \<Longrightarrow>
   build_grid es = place_all es (blank_grid (Max (set (map (\<lambda>(c, x, y). x) es)))
                                            (Max (set (map (\<lambda>(c, x, y). y) es))))"
  by (simp add: build_grid_def py_max_Max)

lemma entry_le_Max:
  "(c, x, y) \<in> set es \<Longrightarrow> x \<le> Max (set (map (\<lambda>(c, x, y). x) es))
     \<and> y \<le> Max (set (map (\<lambda>(c, x, y). y) es))"
proof -
  assume mem: "(c, x, y) \<in> set es"
  then have "x \<in> set (map (\<lambda>(c, x, y). x) es)" and "y \<in> set (map (\<lambda>(c, x, y). y) es)"
    by force+
  then show ?thesis by simp
qed

lemma list_index_in_range:
  "0 \<le> i \<Longrightarrow> i \<le> m \<Longrightarrow> list_index i (nat (m + 1)) = Some (nat i)"
  by (simp add: list_index_def)

lemma list_index_Some_pos: "list_index i (nat (m + 1)) = Some j \<Longrightarrow> 0 \<le> m"
  by (auto simp: list_index_def Let_def split: if_splits)

text \<open>When the grid is built, the two maxima are not negative.\<close>

lemma build_grid_maxima:
  assumes ok: "build_grid es = Inr g" and ne: "es \<noteq> []"
  shows "0 \<le> Max (set (map (\<lambda>(c, x, y). x) es)) \<and> 0 \<le> Max (set (map (\<lambda>(c, x, y). y) es))"
proof -
  let ?mx = "Max (set (map (\<lambda>(c, x, y). x) es))" and ?my = "Max (set (map (\<lambda>(c, x, y). y) es))"
  from ne obtain c x y where mem: "(c, x, y) \<in> set es"
    by (cases es) auto
  from ok ne have "place_all es (blank_grid ?mx ?my) = Inr g" by (simp add: build_grid_place)
  from place_all_in_range [OF this blank_grid_length blank_grid_rows mem]
  obtain r k where "list_index y (nat (?my + 1)) = Some r" and "list_index x (nat (?mx + 1)) = Some k"
    by auto
  then show ?thesis by (auto dest: list_index_Some_pos)
qed

lemma build_grid_shape:
  assumes ok: "build_grid es = Inr g" and ne: "es \<noteq> []"
  shows "length g = nat (Max (set (map (\<lambda>(c, x, y). y) es)) + 1)
     \<and> (\<forall>row\<in>set g. length row = nat (Max (set (map (\<lambda>(c, x, y). x) es)) + 1))"
proof -
  let ?mx = "Max (set (map (\<lambda>(c, x, y). x) es))" and ?my = "Max (set (map (\<lambda>(c, x, y). y) es))"
  from ok ne have "place_all es (blank_grid ?mx ?my) = Inr g" by (simp add: build_grid_place)
  from place_all_rect [OF this blank_grid_length blank_grid_rows] show ?thesis .
qed

text \<open>Each cell of the built grid is a space or the token of an entry that addresses it.\<close>

lemma build_grid_cells:
  assumes ok: "build_grid es = Inr g" and ne: "es \<noteq> []"
    and r: "r < nat (Max (set (map (\<lambda>(c, x, y). y) es)) + 1)"
    and k: "k < nat (Max (set (map (\<lambda>(c, x, y). x) es)) + 1)"
  shows "g ! r ! k = '' ''
     \<or> (\<exists>(c, x, y)\<in>set es. g ! r ! k = c
           \<and> list_index y (nat (Max (set (map (\<lambda>(c, x, y). y) es)) + 1)) = Some r
           \<and> list_index x (nat (Max (set (map (\<lambda>(c, x, y). x) es)) + 1)) = Some k)"
proof -
  let ?mx = "Max (set (map (\<lambda>(c, x, y). x) es))" and ?my = "Max (set (map (\<lambda>(c, x, y). y) es))"
  from ok ne have "place_all es (blank_grid ?mx ?my) = Inr g" by (simp add: build_grid_place)
  from place_all_cells [OF this blank_grid_length blank_grid_rows, of r k]
  show ?thesis using blank_grid_cell [OF r k] by simp
qed

text \<open>With no negative coordinate the grid is built, and in it the last entry of each
  coordinate pair is in its cell.\<close>

lemma build_grid_nonneg:
  assumes ne: "es \<noteq> []" and nonneg: "\<forall>(c, x, y)\<in>set es. 0 \<le> x \<and> 0 \<le> y"
  shows "\<exists>g. build_grid es = Inr g"
proof -
  let ?mx = "Max (set (map (\<lambda>(c, x, y). x) es))" and ?my = "Max (set (map (\<lambda>(c, x, y). y) es))"
  have "\<forall>(c, x, y)\<in>set es. list_index y (nat (?my + 1)) \<noteq> None \<and> list_index x (nat (?mx + 1)) \<noteq> None"
  proof (clarify, intro conjI)
    fix c x y assume mem: "(c, x, y) \<in> set es"
    with nonneg have "0 \<le> x" "0 \<le> y" by auto
    moreover from mem have "x \<le> ?mx" "y \<le> ?my" using entry_le_Max [OF mem] by simp_all
    ultimately show "list_index y (nat (?my + 1)) \<noteq> None" "list_index x (nat (?mx + 1)) \<noteq> None"
      by (simp_all add: list_index_in_range)
  qed
  from place_all_total [OF blank_grid_length blank_grid_rows this]
  show ?thesis using ne by (simp add: build_grid_place)
qed

lemma build_grid_last:
  assumes ok: "build_grid es = Inr g"
    and nonneg: "\<forall>(c, x, y)\<in>set es. 0 \<le> x \<and> 0 \<le> y"
    and es: "es = pre @ (c, x, y) # post"
    and later: "\<forall>(c', x', y')\<in>set post. (x', y') \<noteq> (x, y)"
  shows "nat y < length g \<and> nat x < length (g ! nat y) \<and> g ! nat y ! nat x = c"
proof -
  let ?mx = "Max (set (map (\<lambda>(c, x, y). x) es))" and ?my = "Max (set (map (\<lambda>(c, x, y). y) es))"
  from es have ne: "es \<noteq> []" and mem: "(c, x, y) \<in> set es" by simp_all
  from ok ne have pl: "place_all (pre @ (c, x, y) # post) (blank_grid ?mx ?my) = Inr g"
    using es by (simp add: build_grid_place)
  from mem nonneg have xy: "0 \<le> x" "0 \<le> y" by auto
  from entry_le_Max [OF mem] have le: "x \<le> ?mx" "y \<le> ?my" by simp_all
  from xy le have r: "list_index y (nat (?my + 1)) = Some (nat y)"
    and k: "list_index x (nat (?mx + 1)) = Some (nat x)"
    by (simp_all add: list_index_in_range)
  have later': "\<forall>(c', x', y')\<in>set post.
      \<not> (list_index y' (nat (?my + 1)) = Some (nat y) \<and> list_index x' (nat (?mx + 1)) = Some (nat x))"
  proof (clarify)
    fix c' x' y' assume m: "(c', x', y') \<in> set post"
      and a: "list_index y' (nat (?my + 1)) = Some (nat y)"
      and b: "list_index x' (nat (?mx + 1)) = Some (nat x)"
    from m es have mem': "(c', x', y') \<in> set es" by simp
    with nonneg have pos: "0 \<le> x'" "0 \<le> y'" by auto
    from entry_le_Max [OF mem'] have "x' \<le> ?mx" "y' \<le> ?my" by simp_all
    with pos a b have "nat y' = nat y" "nat x' = nat x" by (simp_all add: list_index_in_range)
    with pos xy have "x' = x" "y' = y" by simp_all
    with later m show False by auto
  qed
  from place_all_last [OF pl blank_grid_length blank_grid_rows r k later']
  have cell: "g ! nat y ! nat x = c" .
  from build_grid_shape [OF ok ne] have len: "length g = nat (?my + 1)"
    and rows: "\<forall>row\<in>set g. length row = nat (?mx + 1)" by blast+
  from r have rlt: "nat y < nat (?my + 1)" by (rule list_index_less)
  from k have klt: "nat x < nat (?mx + 1)" by (rule list_index_less)
  from rlt len rows have "length (g ! nat y) = nat (?mx + 1)" by simp
  with cell rlt klt len show ?thesis by simp
qed

lemma build_grid_blank:
  assumes ok: "build_grid es = Inr g"
    and nonneg: "\<forall>(c, x, y)\<in>set es. 0 \<le> x \<and> 0 \<le> y"
    and ne: "es \<noteq> []"
    and r: "r < length g" and k: "k < length (g ! r)"
    and none: "\<forall>(c, x, y)\<in>set es. (nat x, nat y) \<noteq> (k, r)"
  shows "g ! r ! k = '' ''"
proof -
  let ?mx = "Max (set (map (\<lambda>(c, x, y). x) es))" and ?my = "Max (set (map (\<lambda>(c, x, y). y) es))"
  from build_grid_shape [OF ok ne] have len: "length g = nat (?my + 1)"
    and rows: "\<forall>row\<in>set g. length row = nat (?mx + 1)" by blast+
  from r k len rows have rlt: "r < nat (?my + 1)" and klt: "k < nat (?mx + 1)" by simp_all
  from build_grid_cells [OF ok ne rlt klt]
  show ?thesis
  proof
    assume "g ! r ! k = '' ''" then show ?thesis .
  next
    assume "\<exists>(c, x, y)\<in>set es. g ! r ! k = c
           \<and> list_index y (nat (?my + 1)) = Some r \<and> list_index x (nat (?mx + 1)) = Some k"
    then obtain c x y where mem: "(c, x, y) \<in> set es"
      and a: "list_index y (nat (?my + 1)) = Some r" and b: "list_index x (nat (?mx + 1)) = Some k"
      by auto
    from mem nonneg have pos: "0 \<le> x" "0 \<le> y" by auto
    from entry_le_Max [OF mem] have "x \<le> ?mx" "y \<le> ?my" by simp_all
    with pos a b have "nat y = r" "nat x = k" by (simp_all add: list_index_in_range)
    with none mem show ?thesis by auto
  qed
qed

subsection \<open>Tokens in the output\<close>

lemma collect_coords_source:
  "e \<in> set (collect_coords lim ls) \<Longrightarrow> \<exists>l\<in>set ls. parse_line lim l = Some e"
  by (induction ls) (auto split: option.splits)

lemma parse_line_token:
  "parse_line lim l = Some (c, x, y) \<Longrightarrow> c \<noteq> [] \<and> (\<forall>ch\<in>set c. \<not> is_space ch)"
proof -
  assume p: "parse_line lim l = Some (c, x, y)"
  then have len: "length (str_split l) = 3" and c: "c = str_split l ! 0"
    by (auto simp: parse_line_def Let_def split: if_splits option.splits)
  then have "c \<in> set (str_split l)" by (simp add: nth_mem)
  then show ?thesis by (rule str_split_tokens)
qed

lemma parse_coords_token:
  "(c, x, y) \<in> set (parse_coords lim text) \<Longrightarrow> c \<noteq> [] \<and> (\<forall>ch\<in>set c. \<not> is_space ch)"
  unfolding parse_coords_lines by (blast dest: collect_coords_source parse_line_token)

lemma str_join_count:
  "rows \<noteq> [] \<Longrightarrow> \<forall>row\<in>set rows. s \<notin> set row
     \<Longrightarrow> length (filter (\<lambda>ch. ch = s) (str_join [s] rows)) = length rows - 1"
proof (induction "[s]" rows rule: str_join.induct)
  case 1
  then show ?case by simp
next
  case (2 x)
  then have "filter (\<lambda>ch. ch = s) x = []" by (auto simp: filter_empty_conv)
  then show ?case by simp
next
  case (3 x y ys)
  then have "filter (\<lambda>ch. ch = s) x = []" by (auto simp: filter_empty_conv)
  with 3 show ?case by simp
qed

lemma decode_Inr:
  "decode_secret_message_from_text lim text = Inr s \<Longrightarrow> parse_coords lim text \<noteq> []
     \<Longrightarrow> \<exists>g. build_grid (parse_coords lim text) = Inr g \<and> s = join_rows g"
  by (auto simp: decode_secret_message_from_text_def render_coords_def split: sum.splits)

lemma decode_built:
  "build_grid (parse_coords lim text) = Inr g
     \<Longrightarrow> decode_secret_message_from_text lim text = Inr (join_rows g)"
  by (cases "parse_coords lim text = []")
     (simp_all add: decode_secret_message_from_text_def render_coords_def build_grid_def)

lemma build_grid_tokens:
  assumes ok: "build_grid (parse_coords lim text) = Inr g"
    and ne: "parse_coords lim text \<noteq> []"
    and row: "row \<in> set g" and cell: "cell \<in> set row"
  shows "(cell = '' '' \<or> (\<exists>(c, x, y)\<in>set (parse_coords lim text). cell = c))
     \<and> CHR 0x0A \<notin> set cell"
proof -
  let ?es = "parse_coords lim text"
  let ?mx = "Max (set (map (\<lambda>(c, x, y). x) ?es))" and ?my = "Max (set (map (\<lambda>(c, x, y). y) ?es))"
  from build_grid_shape [OF ok ne] have len: "length g = nat (?my + 1)"
    and rows: "\<forall>row\<in>set g. length row = nat (?mx + 1)" by blast+
  from row obtain r where r: "r < length g" and gr: "g ! r = row"
    by (auto simp: in_set_conv_nth)
  from cell obtain k where k: "k < length row" and rk: "row ! k = cell"
    by (auto simp: in_set_conv_nth)
  from r len have rlt: "r < nat (?my + 1)" by simp
  from k row rows have klt: "k < nat (?mx + 1)" by simp
  from build_grid_cells [OF ok ne rlt klt] gr rk
  have disj: "cell = '' '' \<or> (\<exists>(c, x, y)\<in>set ?es. cell = c)" by auto
  have lf: "is_space (CHR 0x0A)" by (simp add: is_space_def)
  from disj have "CHR 0x0A \<notin> set cell"
  proof
    assume "cell = '' ''" then show ?thesis by simp
  next
    assume "\<exists>(c, x, y)\<in>set ?es. cell = c"
    then obtain x y where "(cell, x, y) \<in> set ?es" by auto
    from parse_coords_token [OF this] lf show ?thesis by blast
  qed
  with disj show ?thesis by simp
qed

lemma distinct_later:
  "distinct (map f (pre @ e # post)) \<Longrightarrow> \<forall>e'\<in>set post. f e' \<noteq> f e"
proof
  fix e' assume d: "distinct (map f (pre @ e # post))" and m: "e' \<in> set post"
  from d have "f e \<notin> f ` set post" by simp
  with m show "f e' \<noteq> f e" by (metis imageI)
qed

subsection \<open>The order of the entries\<close>

text \<open>With pairwise distinct, non-negative coordinates every entry is in its cell.\<close>

lemma build_grid_distinct_cell:
  assumes ok: "build_grid es = Inr g"
    and nonneg: "\<forall>(c, x, y)\<in>set es. 0 \<le> x \<and> 0 \<le> y"
    and dist: "distinct (map (\<lambda>(c, x, y). (x, y)) es)"
    and mem: "(c, x, y) \<in> set es"
  shows "g ! nat y ! nat x = c"
proof -
  from mem obtain pre post where es: "es = pre @ (c, x, y) # post"
    by (auto dest: split_list)
  from dist have "\<forall>e'\<in>set post. (\<lambda>(c, x, y). (x, y)) e' \<noteq> (\<lambda>(c, x, y). (x, y)) (c, x, y)"
    unfolding es by (rule distinct_later)
  then have later: "\<forall>(c', x', y')\<in>set post. (x', y') \<noteq> (x, y)" by auto
  from build_grid_last [OF ok nonneg es later] show ?thesis by simp
qed

text \<open>Two lists of the same entries, in any order, give the same grid when the
  coordinates are pairwise distinct and not negative.\<close>

lemma build_grid_permuted:
  assumes perm: "mset es' = mset es" and ne: "es \<noteq> []"
    and nonneg: "\<forall>(c, x, y)\<in>set es. 0 \<le> x \<and> 0 \<le> y"
    and dist: "distinct (map (\<lambda>(c, x, y). (x, y)) es)"
  shows "build_grid es' = build_grid es"
proof -
  from perm have sets: "set es' = set es" by (rule mset_eq_setD)
  with ne have ne': "es' \<noteq> []" by auto
  from sets nonneg have nonneg': "\<forall>(c, x, y)\<in>set es'. 0 \<le> x \<and> 0 \<le> y" by simp
  from perm have "image_mset (\<lambda>(c, x, y). (x, y)) (mset es')
      = image_mset (\<lambda>(c, x, y). (x, y)) (mset es)"
    by (rule arg_cong)
  then have "mset (map (\<lambda>(c, x, y). (x, y)) es') = mset (map (\<lambda>(c, x, y). (x, y)) es)"
    by (simp only: mset_map)
  from mset_eq_imp_distinct_iff [OF this] dist
  have dist': "distinct (map (\<lambda>(c, x, y). (x, y)) es')" by (rule iffD2)
  from build_grid_nonneg [OF ne nonneg] obtain g where ok: "build_grid es = Inr g" ..
  from build_grid_nonneg [OF ne' nonneg'] obtain g' where ok': "build_grid es' = Inr g'" ..
  let ?mx = "Max (set (map (\<lambda>(c, x, y). x) es))" and ?my = "Max (set (map (\<lambda>(c, x, y). y) es))"
  from build_grid_shape [OF ok ne] have len: "length g = nat (?my + 1)"
    and rows: "\<forall>row\<in>set g. length row = nat (?mx + 1)" by blast+
  from build_grid_shape [OF ok' ne'] have len': "length g' = nat (?my + 1)"
    and rows': "\<forall>row\<in>set g'. length row = nat (?mx + 1)" using sets by auto
  have "g' = g"
  proof (rule nth_equalityI)
    show "length g' = length g" using len len' by simp
  next
    fix r assume r': "r < length g'"
    then have r: "r < length g" using len len' by simp
    from r rows have row: "length (g ! r) = nat (?mx + 1)" by simp
    from r' rows' have row': "length (g' ! r) = nat (?mx + 1)" by simp
    show "g' ! r = g ! r"
    proof (rule nth_equalityI)
      show "length (g' ! r) = length (g ! r)" using row row' by simp
    next
      fix k assume k': "k < length (g' ! r)"
      then have k: "k < length (g ! r)" using row row' by simp
      show "g' ! r ! k = g ! r ! k"
      proof (cases "\<exists>(c, x, y)\<in>set es. (nat x, nat y) = (k, r)")
        case True
        then obtain c x y where mem: "(c, x, y) \<in> set es" and x: "nat x = k" and y: "nat y = r"
          by auto
        from mem sets have mem': "(c, x, y) \<in> set es'" by simp
        from build_grid_distinct_cell [OF ok nonneg dist mem]
             build_grid_distinct_cell [OF ok' nonneg' dist' mem'] x y
        show ?thesis by simp
      next
        case False
        then have none: "\<forall>(c, x, y)\<in>set es. (nat x, nat y) \<noteq> (k, r)" by auto
        with sets have none': "\<forall>(c, x, y)\<in>set es'. (nat x, nat y) \<noteq> (k, r)" by simp
        from build_grid_blank [OF ok nonneg ne r k none]
             build_grid_blank [OF ok' nonneg' ne' r' k' none']
        show ?thesis by simp
      qed
    qed
  qed
  with ok ok' show ?thesis by simp
qed

section \<open>The claims\<close>

text \<open>
  C1: for the ten-line sample input (\<open>H 0 0\<close>, \<open>E 1 0\<close>, \<open>L 2 0\<close>, \<open>L 3 0\<close>, \<open>O 4 0\<close>,
  \<open>W 0 1\<close>, \<open>O 1 1\<close>, \<open>R 2 1\<close>, \<open>L 3 1\<close>, \<open>D 4 1\<close>, one entry per line), the decoder
  returns exactly \<open>HELLO\<close>, a line feed, \<open>WORLD\<close>: the assertion of the self-test
  holds, whatever the interpreter's limit on integer digits.
\<close>

theorem sample_decodes_to_hello_world:
  "decode_secret_message_from_text lim SAMPLE = Inr SAMPLE_EXPECT
   \<and> SAMPLE_EXPECT = ''HELLO'' @ [CHR 0x0A] @ ''WORLD''
   \<and> str_splitlines SAMPLE =
       [''H 0 0'', ''E 1 0'', ''L 2 0'', ''L 3 0'', ''O 4 0'',
        ''W 0 1'', ''O 1 1'', ''R 2 1'', ''L 3 1'', ''D 4 1'']"
  using sample_renders [of lim]
  by (simp add: SAMPLE_EXPECT_def SAMPLE_def str_splitlines_def is_linebreak_def)

text \<open>
  C2: the claim is that the decoder raises no error on any input text. The code does
  raise: on the one-line text \<open>A -1 0\<close> the line is kept with \<open>x = -1\<close>, so
  \<open>max_x + 1 = 0\<close>, the only row of the grid is empty, and the assignment
  \<^verbatim>\<open>grid[0][-1] = "A"\<close> raises \<^verbatim>\<open>IndexError\<close>.
\<close>

theorem negative_coordinate_raises_IndexError:
  "decode_secret_message_from_text lim ''A -1 0'' = Inl IndexError"
  by (simp add: decode_defs)

text \<open>
  C9: rendering is not a round trip. The sample renders to \<open>HELLO\<close>, line feed,
  \<open>WORLD\<close>; rendering that text again gives the empty string, since neither of its
  lines has three tokens; and the empty string is not the first rendering.
\<close>

theorem render_is_not_a_round_trip:
  "decode_secret_message_from_text lim SAMPLE = Inr SAMPLE_EXPECT
   \<and> decode_secret_message_from_text lim SAMPLE_EXPECT = Inr []
   \<and> parse_coords lim SAMPLE_EXPECT = []
   \<and> decode_secret_message_from_text lim SAMPLE_EXPECT
       \<noteq> decode_secret_message_from_text lim SAMPLE"
proof -
  have "parse_coords lim SAMPLE_EXPECT = []"
    by (simp add: decode_defs SAMPLE_EXPECT_def)
  moreover have "SAMPLE_EXPECT \<noteq> []" by (simp add: SAMPLE_EXPECT_def)
  ultimately show ?thesis
    using sample_renders [of lim] sample_expect_renders [of lim] by simp
qed

text \<open>
  C4: every malformed line is discarded without affecting the rest of the render. A line
  is malformed when it does not split into exactly three tokens, or when its second or
  its third token is not an integer for \<^verbatim>\<open>int\<close>. Whenever the lines of \<open>t'\<close> are
  those of \<open>t\<close> with one malformed line taken out, both texts decode to the same result.
  In particular \<open>X 1 2 3\<close>, line feed, \<open>A 0 0\<close> renders to \<open>A\<close>, and \<open>A x y\<close>, line
  feed, \<open>B 0 0\<close> renders to \<open>B\<close>.
\<close>

theorem malformed_lines_are_discarded:
  "(\<forall>a l b t t'.
      str_splitlines t = a @ l # b \<and> str_splitlines t' = a @ b
      \<and> (length (str_split l) \<noteq> 3 \<or> py_int lim (str_split l ! 1) = None
           \<or> py_int lim (str_split l ! 2) = None)
      \<longrightarrow> decode_secret_message_from_text lim t = decode_secret_message_from_text lim t')
   \<and> decode_secret_message_from_text lim (''X 1 2 3'' @ [CHR 0x0A] @ ''A 0 0'') = Inr ''A''
   \<and> decode_secret_message_from_text lim (''A x y'' @ [CHR 0x0A] @ ''B 0 0'') = Inr ''B''"
proof (intro conjI allI impI)
  fix a l b t t'
  assume h: "str_splitlines t = a @ l # b \<and> str_splitlines t' = a @ b
      \<and> (length (str_split l) \<noteq> 3 \<or> py_int lim (str_split l ! 1) = None
           \<or> py_int lim (str_split l ! 2) = None)"
  then have "parse_line lim l = None" by (simp add: malformed_parse_line)
  then have "collect_coords lim (a @ l # b) = collect_coords lim (a @ b)"
    by (simp add: collect_coords_append)
  with h show "decode_secret_message_from_text lim t = decode_secret_message_from_text lim t'"
    by (simp add: decode_lines)
next
  show "decode_secret_message_from_text lim (''X 1 2 3'' @ [CHR 0x0A] @ ''A 0 0'') = Inr ''A''"
    by (simp add: decode_defs)
next
  show "decode_secret_message_from_text lim (''A x y'' @ [CHR 0x0A] @ ''B 0 0'') = Inr ''B''"
    by (simp add: decode_defs)
qed

text \<open>
  The line \<open>X 1 2 3\<close> has four tokens; taking it out from between \<open>A 0 0\<close> and
  \<open>B 1 0\<close> leaves the result as it is.
\<close>

theorem malformed_lines_are_discarded_witness:
  "str_splitlines (''A 0 0'' @ [CHR 0x0A] @ ''X 1 2 3'' @ [CHR 0x0A] @ ''B 1 0'')
     = [''A 0 0''] @ ''X 1 2 3'' # [''B 1 0'']
   \<and> str_splitlines (''A 0 0'' @ [CHR 0x0A] @ ''B 1 0'') = [''A 0 0''] @ [''B 1 0'']
   \<and> length (str_split ''X 1 2 3'') \<noteq> 3
   \<and> decode_secret_message_from_text 4300
        (''A 0 0'' @ [CHR 0x0A] @ ''X 1 2 3'' @ [CHR 0x0A] @ ''B 1 0'')
      = decode_secret_message_from_text 4300 (''A 0 0'' @ [CHR 0x0A] @ ''B 1 0'')"
proof -
  have h: "str_splitlines (''A 0 0'' @ [CHR 0x0A] @ ''X 1 2 3'' @ [CHR 0x0A] @ ''B 1 0'')
        = [''A 0 0''] @ ''X 1 2 3'' # [''B 1 0'']
      \<and> str_splitlines (''A 0 0'' @ [CHR 0x0A] @ ''B 1 0'') = [''A 0 0''] @ [''B 1 0'']
      \<and> (length (str_split ''X 1 2 3'') \<noteq> 3
          \<or> py_int 4300 (str_split ''X 1 2 3'' ! 1) = None
          \<or> py_int 4300 (str_split ''X 1 2 3'' ! 2) = None)"
    by (simp add: str_splitlines_def is_linebreak_def str_split_def is_space_def)
  have len: "length (str_split ''X 1 2 3'') \<noteq> 3"
    by (simp add: str_split_def is_space_def)
  from malformed_lines_are_discarded [of 4300, THEN conjunct1, rule_format, OF h] h len
  show ?thesis by blast
qed

text \<open>
  C5: when no line of the input is a valid entry (each line has a token count other than
  three, or a second or third token that is not an integer), the decoder returns the
  empty string. That is so for the empty text and for every text of whitespace only.
\<close>

theorem no_valid_entry_renders_empty:
  "((\<forall>l\<in>set (str_splitlines text).
        length (str_split l) \<noteq> 3 \<or> py_int lim (str_split l ! 1) = None
        \<or> py_int lim (str_split l ! 2) = None)
      \<longrightarrow> decode_secret_message_from_text lim text = Inr [])
   \<and> ((\<forall>c\<in>set text. is_space c) \<longrightarrow> decode_secret_message_from_text lim text = Inr [])
   \<and> decode_secret_message_from_text lim [] = Inr []"
proof (intro conjI impI)
  assume "\<forall>l\<in>set (str_splitlines text).
        length (str_split l) \<noteq> 3 \<or> py_int lim (str_split l ! 1) = None
        \<or> py_int lim (str_split l ! 2) = None"
  then have "\<forall>l\<in>set (str_splitlines text). parse_line lim l = None"
    by (blast intro: malformed_parse_line)
  then have "collect_coords lim (str_splitlines text) = []" by (rule collect_coords_None)
  then show "decode_secret_message_from_text lim text = Inr []"
    by (simp add: decode_lines render_coords_def)
next
  assume ws: "\<forall>c\<in>set text. is_space c"
  have "\<forall>l\<in>set (str_splitlines text). parse_line lim l = None"
  proof
    fix l assume "l \<in> set (str_splitlines text)"
    then have "set l \<subseteq> set text" by (rule str_splitlines_chars)
    with ws have "\<forall>c\<in>set l. is_space c" by blast
    then have "str_split l = []" by (rule str_split_spaces)
    then show "parse_line lim l = None" by (simp add: parse_line_def)
  qed
  then have "collect_coords lim (str_splitlines text) = []" by (rule collect_coords_None)
  then show "decode_secret_message_from_text lim text = Inr []"
    by (simp add: decode_lines render_coords_def)
next
  show "decode_secret_message_from_text lim [] = Inr []"
    by (simp add: decode_lines render_coords_def str_splitlines_def)
qed

text \<open>
  A text of two malformed lines around an empty one, and a text of blanks, tabs and line
  breaks only.
\<close>

theorem no_valid_entry_renders_empty_witness:
  "str_splitlines (''A 0'' @ [CHR 0x0A, CHR 0x0A] @ ''B x 1'') = [''A 0'', [], ''B x 1'']
   \<and> length (str_split ''A 0'') = 2 \<and> length (str_split []) = 0
   \<and> py_int 4300 (str_split ''B x 1'' ! 1) = None
   \<and> decode_secret_message_from_text 4300 (''A 0'' @ [CHR 0x0A, CHR 0x0A] @ ''B x 1'') = Inr []
   \<and> decode_secret_message_from_text 4300
        ('' '' @ [CHR 0x0A, CHR 0x09, CHR 0x0D, CHR 0x0A] @ ''  '') = Inr []"
proof -
  have l1: "str_splitlines (''A 0'' @ [CHR 0x0A, CHR 0x0A] @ ''B x 1'') = [''A 0'', [], ''B x 1'']"
    by (simp add: str_splitlines_def is_linebreak_def)
  have l2: "length (str_split ''A 0'') = 2" and l3: "length (str_split []) = 0"
    by (simp_all add: str_split_def is_space_def)
  have l4: "py_int 4300 (str_split ''B x 1'' ! 1) = None"
    by (simp add: decode_defs)
  have h1: "\<forall>l\<in>set (str_splitlines (''A 0'' @ [CHR 0x0A, CHR 0x0A] @ ''B x 1'')).
        length (str_split l) \<noteq> 3 \<or> py_int 4300 (str_split l ! 1) = None
        \<or> py_int 4300 (str_split l ! 2) = None"
    by (simp add: decode_defs)
  have h2: "\<forall>c\<in>set ('' '' @ [CHR 0x0A, CHR 0x09, CHR 0x0D, CHR 0x0A] @ ''  ''). is_space c"
    by (simp add: is_space_def)
  from no_valid_entry_renders_empty
         [of "''A 0'' @ [CHR 0x0A, CHR 0x0A] @ ''B x 1''" 4300, THEN conjunct1, THEN mp, OF h1]
       no_valid_entry_renders_empty
         [of "'' '' @ [CHR 0x0A, CHR 0x09, CHR 0x0D, CHR 0x0A] @ ''  ''" 4300,
          THEN conjunct2, THEN conjunct1, THEN mp, OF h2]
       l1 l2 l3 l4
  show ?thesis by - (intro conjI; assumption)
qed

text \<open>
  C3, as the code has it: a line whose \<open>x\<close> or \<open>y\<close> token parses as a negative integer
  is not discarded. Like every line of three tokens with integer coordinates it becomes
  an entry of \<^verbatim>\<open>coords\<close> with its negative value, and it is counted when \<^verbatim>\<open>max_x\<close>
  and \<^verbatim>\<open>max_y\<close> are taken.
\<close>

theorem negative_coordinates_are_kept:
  "l \<in> set (str_splitlines text) \<Longrightarrow> str_split l = [c, xt, yt]
   \<Longrightarrow> py_int lim xt = Some x \<Longrightarrow> py_int lim yt = Some y \<Longrightarrow> x < 0 \<or> y < 0
   \<Longrightarrow> (c, x, y) \<in> set (parse_coords lim text)
       \<and> (\<exists>max_x max_y.
             py_max (map (\<lambda>(c, x, y). x) (parse_coords lim text)) = Inr max_x
             \<and> py_max (map (\<lambda>(c, x, y). y) (parse_coords lim text)) = Inr max_y
             \<and> x \<le> max_x \<and> y \<le> max_y)"
proof -
  assume l: "l \<in> set (str_splitlines text)" and parts: "str_split l = [c, xt, yt]"
    and x: "py_int lim xt = Some x" and y: "py_int lim yt = Some y"
  let ?es = "parse_coords lim text"
  from parts x y have "parse_line lim l = Some (c, x, y)" by (simp add: parse_line_def)
  with l have mem: "(c, x, y) \<in> set ?es"
    by (simp add: parse_coords_lines collect_coords_mem)
  then have ne: "?es \<noteq> []" by auto
  from mem have "x \<in> set (map (\<lambda>(c, x, y). x) ?es)" and "y \<in> set (map (\<lambda>(c, x, y). y) ?es)"
    by force+
  then have "x \<le> Max (set (map (\<lambda>(c, x, y). x) ?es))" and "y \<le> Max (set (map (\<lambda>(c, x, y). y) ?es))"
    by simp_all
  with mem ne show ?thesis by (simp add: py_max_Max)
qed

text \<open>
  The line \<open>A -2 0\<close> is an entry of the text \<open>A -2 0\<close>, line feed, \<open>B 1 0\<close>.
\<close>

theorem negative_coordinates_are_kept_witness:
  "''A -2 0'' \<in> set (str_splitlines (''A -2 0'' @ [CHR 0x0A] @ ''B 1 0''))
   \<and> str_split ''A -2 0'' = [''A'', ''-2'', ''0'']
   \<and> py_int 4300 ''-2'' = Some (- 2) \<and> py_int 4300 ''0'' = Some 0
   \<and> (''A'', - 2, 0) \<in> set (parse_coords 4300 (''A -2 0'' @ [CHR 0x0A] @ ''B 1 0''))"
proof -
  have h1: "''A -2 0'' \<in> set (str_splitlines (''A -2 0'' @ [CHR 0x0A] @ ''B 1 0''))"
    by (simp add: str_splitlines_def is_linebreak_def)
  have h2: "str_split ''A -2 0'' = [''A'', ''-2'', ''0'']"
    by (simp add: str_split_def is_space_def)
  have h3: "py_int 4300 ''-2'' = Some (- 2)" and h4: "py_int 4300 ''0'' = Some 0"
    by (simp_all add: decode_defs)
  have h5: "(- 2 :: int) < 0 \<or> (0 :: int) < 0" by simp
  from negative_coordinates_are_kept [OF h1 h2 h3 h4 h5] h1 h2 h3 h4
  show ?thesis by blast
qed

text \<open>
  C3 as the claim states it fails: the token \<open>-2\<close> parses as the integer \<open>-2\<close>, and
  the line \<open>A -2 0\<close> puts its \<open>A\<close> into the output, which without that line is a
  space followed by \<open>B\<close>.
\<close>

theorem negative_line_contributes_counterexample:
  "py_int 4300 ''-2'' = Some (- 2)
   \<and> decode_secret_message_from_text 4300 (''A -2 0'' @ [CHR 0x0A] @ ''B 1 0'') = Inr ''AB''
   \<and> decode_secret_message_from_text 4300 ''B 1 0'' = Inr '' B''"
  by (simp add: decode_defs)

text \<open>
  C6: for every input with at least one valid entry, the string that the decoder
  returns consists of exactly \<open>max_y + 1\<close> rows separated by line feeds, built from a
  grid of \<open>max_y + 1\<close> rows and \<open>max_x + 1\<close> columns, where \<open>max_x\<close> and \<open>max_y\<close> are
  the maxima over the valid entries: the rows hold no line feed, the output holds
  \<open>max_y\<close> of them, and each cell is a single space unless an entry that addresses the
  cell has put its token there. The decoder does return a string whenever no entry has a
  negative coordinate. In particular \<open>Z 2 1\<close> renders to a row of three spaces
  and the row of two spaces and \<open>Z\<close>.
\<close>

theorem grid_dimensions:
  assumes coords: "coords = parse_coords lim text"
    and max_x: "max_x = Max (set (map (\<lambda>(c, x, y). x) coords))"
    and max_y: "max_y = Max (set (map (\<lambda>(c, x, y). y) coords))"
  shows
  "(decode_secret_message_from_text lim text = Inr s \<and> coords \<noteq> [] \<longrightarrow>
      0 \<le> max_x \<and> 0 \<le> max_y
      \<and> (\<exists>g. build_grid coords = Inr g
             \<and> s = str_join [CHR 0x0A] (map concat g)
             \<and> length g = nat (max_y + 1)
             \<and> (\<forall>row\<in>set g. length row = nat (max_x + 1) \<and> CHR 0x0A \<notin> set (concat row))
             \<and> (\<forall>r<nat (max_y + 1). \<forall>k<nat (max_x + 1).
                   g ! r ! k = '' ''
                   \<or> (\<exists>(c, x, y)\<in>set coords. g ! r ! k = c
                         \<and> list_index y (nat (max_y + 1)) = Some r
                         \<and> list_index x (nat (max_x + 1)) = Some k)))
      \<and> length (filter (\<lambda>ch. ch = CHR 0x0A) s) = nat max_y)
   \<and> ((\<forall>(c, x, y)\<in>set coords. 0 \<le> x \<and> 0 \<le> y)
        \<longrightarrow> (\<exists>s'. decode_secret_message_from_text lim text = Inr s'))
   \<and> decode_secret_message_from_text lim ''Z 2 1'' = Inr (''   '' @ [CHR 0x0A] @ ''  Z'')"
proof -
  have shape: "decode_secret_message_from_text lim text = Inr s \<and> coords \<noteq> [] \<longrightarrow>
      0 \<le> max_x \<and> 0 \<le> max_y
      \<and> (\<exists>g. build_grid coords = Inr g
             \<and> s = str_join [CHR 0x0A] (map concat g)
             \<and> length g = nat (max_y + 1)
             \<and> (\<forall>row\<in>set g. length row = nat (max_x + 1) \<and> CHR 0x0A \<notin> set (concat row))
             \<and> (\<forall>r<nat (max_y + 1). \<forall>k<nat (max_x + 1).
                   g ! r ! k = '' ''
                   \<or> (\<exists>(c, x, y)\<in>set coords. g ! r ! k = c
                         \<and> list_index y (nat (max_y + 1)) = Some r
                         \<and> list_index x (nat (max_x + 1)) = Some k)))
      \<and> length (filter (\<lambda>ch. ch = CHR 0x0A) s) = nat max_y"
  proof (rule impI)
  assume h: "decode_secret_message_from_text lim text = Inr s \<and> coords \<noteq> []"
  then have ne: "parse_coords lim text \<noteq> []" using coords by simp
  from h decode_Inr [OF _ ne] obtain g where ok: "build_grid (parse_coords lim text) = Inr g"
    and s: "s = join_rows g" by blast
  from build_grid_maxima [OF ok ne] have pos: "0 \<le> max_x" "0 \<le> max_y"
    unfolding max_x max_y coords by simp_all
  from build_grid_shape [OF ok ne] have len: "length g = nat (max_y + 1)"
    and rows: "\<forall>row\<in>set g. length row = nat (max_x + 1)"
    unfolding max_x max_y coords by blast+
  have nolf: "\<forall>row\<in>set g. CHR 0x0A \<notin> set (concat row)"
    using build_grid_tokens [OF ok ne] by auto
  have cells: "\<forall>r<nat (max_y + 1). \<forall>k<nat (max_x + 1).
      g ! r ! k = '' ''
      \<or> (\<exists>(c, x, y)\<in>set coords. g ! r ! k = c
            \<and> list_index y (nat (max_y + 1)) = Some r
            \<and> list_index x (nat (max_x + 1)) = Some k)"
    using build_grid_cells [OF ok ne] unfolding max_x max_y coords by blast
  from len pos have "map concat g \<noteq> []" by auto
  moreover from nolf have "\<forall>row\<in>set (map concat g). CHR 0x0A \<notin> set row" by simp
  ultimately have "length (filter (\<lambda>ch. ch = CHR 0x0A) (str_join [CHR 0x0A] (map concat g)))
      = length (map concat g) - 1"
    by (rule str_join_count)
  with len pos s have count: "length (filter (\<lambda>ch. ch = CHR 0x0A) s) = nat max_y"
    by (simp add: join_rows_def nat_add_distrib)
  from pos ok s len rows nolf cells count
  show "0 \<le> max_x \<and> 0 \<le> max_y
      \<and> (\<exists>g. build_grid coords = Inr g
             \<and> s = str_join [CHR 0x0A] (map concat g)
             \<and> length g = nat (max_y + 1)
             \<and> (\<forall>row\<in>set g. length row = nat (max_x + 1) \<and> CHR 0x0A \<notin> set (concat row))
             \<and> (\<forall>r<nat (max_y + 1). \<forall>k<nat (max_x + 1).
                   g ! r ! k = '' ''
                   \<or> (\<exists>(c, x, y)\<in>set coords. g ! r ! k = c
                         \<and> list_index y (nat (max_y + 1)) = Some r
                         \<and> list_index x (nat (max_x + 1)) = Some k)))
      \<and> length (filter (\<lambda>ch. ch = CHR 0x0A) s) = nat max_y"
    unfolding coords join_rows_def by blast
  qed
  have total: "(\<forall>(c, x, y)\<in>set coords. 0 \<le> x \<and> 0 \<le> y)
        \<longrightarrow> (\<exists>s'. decode_secret_message_from_text lim text = Inr s')"
  proof (rule impI)
  assume nonneg: "\<forall>(c, x, y)\<in>set coords. 0 \<le> x \<and> 0 \<le> y"
  show "\<exists>s'. decode_secret_message_from_text lim text = Inr s'"
  proof (cases "parse_coords lim text = []")
    case True
    then show ?thesis by (simp add: decode_secret_message_from_text_def render_coords_def)
  next
    case False
    from build_grid_nonneg [OF False] nonneg obtain g
      where "build_grid (parse_coords lim text) = Inr g" unfolding coords by blast
    then show ?thesis by (blast dest: decode_built)
  qed
  qed
  have example: "decode_secret_message_from_text lim ''Z 2 1'' = Inr (''   '' @ [CHR 0x0A] @ ''  Z'')"
    by (simp add: decode_defs)
  show ?thesis by (rule conjI [OF shape conjI [OF total example]])
qed

text \<open>
  The text \<open>A 0 0\<close>, line feed, \<open>Z 2 1\<close> has \<open>max_x = 2\<close> and \<open>max_y = 1\<close>: two rows
  of three cells, one line feed in the output.
\<close>

theorem grid_dimensions_witness:
  "[(''A'', 0 :: int, 0 :: int), (''Z'', 2, 1)] = parse_coords 4300 (''A 0 0'' @ [CHR 0x0A] @ ''Z 2 1'')
   \<and> (2 :: int) = Max (set (map (\<lambda>(c, x, y). x) [(''A'', 0 :: int, 0 :: int), (''Z'', 2, 1)]))
   \<and> (1 :: int) = Max (set (map (\<lambda>(c, x, y). y) [(''A'', 0 :: int, 0 :: int), (''Z'', 2, 1)]))
   \<and> decode_secret_message_from_text 4300 (''A 0 0'' @ [CHR 0x0A] @ ''Z 2 1'')
       = Inr (''A  '' @ [CHR 0x0A] @ ''  Z'')
   \<and> (\<exists>g. build_grid [(''A'', 0 :: int, 0 :: int), (''Z'', 2, 1)] = Inr g \<and> length g = nat (1 + 1)
          \<and> ''A  '' @ [CHR 0x0A] @ ''  Z'' = str_join [CHR 0x0A] (map concat g))
   \<and> length (filter (\<lambda>ch. ch = CHR 0x0A) (''A  '' @ [CHR 0x0A] @ ''  Z'')) = nat 1
   \<and> (\<exists>s'. decode_secret_message_from_text 4300 (''A 0 0'' @ [CHR 0x0A] @ ''Z 2 1'') = Inr s')"
proof -
  let ?text = "''A 0 0'' @ [CHR 0x0A] @ ''Z 2 1''"
  let ?coords = "[(''A'', 0 :: int, 0 :: int), (''Z'', 2, 1)]"
  let ?s = "''A  '' @ [CHR 0x0A] @ ''  Z''"
  have h1: "?coords = parse_coords 4300 ?text" by (simp add: decode_defs)
  have h2: "(2 :: int) = Max (set (map (\<lambda>(c, x, y). x) ?coords))" by simp
  have h3: "(1 :: int) = Max (set (map (\<lambda>(c, x, y). y) ?coords))" by simp
  have h4: "decode_secret_message_from_text 4300 ?text = Inr ?s" by (simp add: decode_defs)
  have h5: "\<forall>(c, x, y)\<in>set ?coords. 0 \<le> x \<and> 0 \<le> y" by simp
  have h6: "decode_secret_message_from_text 4300 ?text = Inr ?s \<and> ?coords \<noteq> []"
    using h4 by simp
  note inst = grid_dimensions [OF h1 h2 h3, of ?s]
  from inst [THEN conjunct1, THEN mp, OF h6]
  have a: "(\<exists>g. build_grid ?coords = Inr g \<and> length g = nat (1 + 1)
          \<and> ?s = str_join [CHR 0x0A] (map concat g))"
    and b: "length (filter (\<lambda>ch. ch = CHR 0x0A) ?s) = nat 1"
    by blast+
  from inst [THEN conjunct2, THEN conjunct1, THEN mp, OF h5]
  have c: "\<exists>s'. decode_secret_message_from_text 4300 ?text = Inr s'" .
  from h1 h2 h3 h4 a b c show ?thesis by - (intro conjI; assumption)
qed

text \<open>
  C7, for inputs with no negative coordinate: the decoder returns, and the cell
  \<open>(x, y)\<close> of the grid holds the token of the entry that is the last, in input order,
  among the entries with these coordinates. In particular \<open>A 0 0\<close>, line feed,
  \<open>B 0 0\<close> renders to \<open>B\<close>.
\<close>

theorem last_entry_wins:
  assumes coords: "coords = parse_coords lim text"
    and nonneg: "\<forall>(c, x, y)\<in>set coords. 0 \<le> x \<and> 0 \<le> y"
    and split: "coords = pre @ (c, x, y) # post"
    and later: "\<forall>(c', x', y')\<in>set post. (x', y') \<noteq> (x, y)"
  shows "(\<exists>g. build_grid coords = Inr g
             \<and> decode_secret_message_from_text lim text = Inr (join_rows g)
             \<and> g ! nat y ! nat x = c)
     \<and> decode_secret_message_from_text lim (''A 0 0'' @ [CHR 0x0A] @ ''B 0 0'') = Inr ''B''"
proof -
  from split have ne: "coords \<noteq> []" by simp
  from build_grid_nonneg [OF ne nonneg] obtain g where ok: "build_grid coords = Inr g" ..
  from build_grid_last [OF ok nonneg split later] have "g ! nat y ! nat x = c" by simp
  moreover from ok have "decode_secret_message_from_text lim text = Inr (join_rows g)"
    unfolding coords by (rule decode_built)
  moreover have "decode_secret_message_from_text lim (''A 0 0'' @ [CHR 0x0A] @ ''B 0 0'') = Inr ''B''"
    by (simp add: decode_defs)
  ultimately show ?thesis using ok by blast
qed

text \<open>
  In \<open>A 0 0\<close>, \<open>C 1 0\<close>, \<open>B 0 0\<close> the entries \<open>A\<close> and \<open>B\<close> share the cell
  \<open>(0, 0)\<close>, which holds \<open>B\<close> in the end.
\<close>

theorem last_entry_wins_witness:
  "[(''A'', 0 :: int, 0 :: int), (''C'', 1, 0), (''B'', 0, 0)]
     = parse_coords 4300 (''A 0 0'' @ [CHR 0x0A] @ ''C 1 0'' @ [CHR 0x0A] @ ''B 0 0'')
   \<and> (\<exists>g. build_grid [(''A'', 0 :: int, 0 :: int), (''C'', 1, 0), (''B'', 0, 0)] = Inr g
          \<and> decode_secret_message_from_text 4300
               (''A 0 0'' @ [CHR 0x0A] @ ''C 1 0'' @ [CHR 0x0A] @ ''B 0 0'') = Inr (join_rows g)
          \<and> g ! nat 0 ! nat 0 = ''B'')"
proof -
  let ?text = "''A 0 0'' @ [CHR 0x0A] @ ''C 1 0'' @ [CHR 0x0A] @ ''B 0 0''"
  let ?coords = "[(''A'', 0 :: int, 0 :: int), (''C'', 1, 0), (''B'', 0, 0)]"
  have h1: "?coords = parse_coords 4300 ?text" by (simp add: decode_defs)
  have h2: "\<forall>(c, x, y)\<in>set ?coords. 0 \<le> x \<and> 0 \<le> y" by simp
  have h3: "?coords = [(''A'', 0, 0), (''C'', 1, 0)] @ (''B'', 0, 0) # []" by simp
  have h4: "\<forall>(c', x', y')\<in>set ([] :: (string \<times> int \<times> int) list). (x', y') \<noteq> (0, 0)" by simp
  from last_entry_wins [OF h1 h2 h3 h4, THEN conjunct1] h1
  show ?thesis by - (intro conjI; assumption)
qed

text \<open>
  C7 as the claim states it fails: in \<open>A 0 0\<close>, \<open>B 0 0\<close>, \<open>C -1 0\<close> the entries
  \<open>A\<close> and \<open>B\<close> share \<open>(0, 0)\<close> and \<open>B\<close> is the later one, but the grid has one
  column, the index \<open>-1\<close> of \<open>C\<close> selects the same cell, and the output is \<open>C\<close>.
\<close>

theorem later_negative_entry_counterexample:
  "parse_coords 4300 (''A 0 0'' @ [CHR 0x0A] @ ''B 0 0'' @ [CHR 0x0A] @ ''C -1 0'')
     = [(''A'', 0, 0), (''B'', 0, 0), (''C'', - 1, 0)]
   \<and> decode_secret_message_from_text 4300
        (''A 0 0'' @ [CHR 0x0A] @ ''B 0 0'' @ [CHR 0x0A] @ ''C -1 0'') = Inr ''C''"
  by (simp add: decode_defs)

text \<open>
  C8, for inputs with no negative coordinate and for an entry that no later entry of the
  same coordinates overwrites: the cell \<open>(x, y)\<close> of the grid holds the whole token, so
  row \<open>y\<close> of the output is the cells on its left, the whole token, and the cells on its
  right; and every cell of the grid is a single space or the whole token of an entry,
  never a part of one. In particular \<open>AB 0 0\<close> renders to \<open>AB\<close>.
\<close>

theorem whole_token_in_cell:
  assumes coords: "coords = parse_coords lim text"
    and nonneg: "\<forall>(c, x, y)\<in>set coords. 0 \<le> x \<and> 0 \<le> y"
    and split: "coords = pre @ (c, x, y) # post"
    and later: "\<forall>(c', x', y')\<in>set post. (x', y') \<noteq> (x, y)"
  shows "(\<exists>g. build_grid coords = Inr g
             \<and> decode_secret_message_from_text lim text = Inr (str_join [CHR 0x0A] (map concat g))
             \<and> nat y < length g \<and> nat x < length (g ! nat y)
             \<and> map concat g ! nat y
                 = concat (take (nat x) (g ! nat y)) @ c @ concat (drop (Suc (nat x)) (g ! nat y))
             \<and> (\<forall>row\<in>set g. \<forall>cell\<in>set row.
                   cell = '' '' \<or> (\<exists>(c', x', y')\<in>set coords. cell = c')))
     \<and> decode_secret_message_from_text lim ''AB 0 0'' = Inr ''AB''"
proof -
  from split have ne: "coords \<noteq> []" by simp
  from build_grid_nonneg [OF ne nonneg] obtain g where ok: "build_grid coords = Inr g" ..
  from build_grid_last [OF ok nonneg split later]
  have r: "nat y < length g" and k: "nat x < length (g ! nat y)" and cell: "g ! nat y ! nat x = c"
    by simp_all
  from k have "g ! nat y = take (nat x) (g ! nat y) @ (g ! nat y ! nat x) # drop (Suc (nat x)) (g ! nat y)"
    by (rule id_take_nth_drop)
  then have "concat (g ! nat y)
      = concat (take (nat x) (g ! nat y) @ (g ! nat y ! nat x) # drop (Suc (nat x)) (g ! nat y))"
    by (rule arg_cong)
  with cell r have row: "map concat g ! nat y
      = concat (take (nat x) (g ! nat y)) @ c @ concat (drop (Suc (nat x)) (g ! nat y))"
    by simp
  from ok have dec: "decode_secret_message_from_text lim text = Inr (str_join [CHR 0x0A] (map concat g))"
    unfolding coords join_rows_def [symmetric] by (rule decode_built)
  have cells: "\<forall>row\<in>set g. \<forall>cell\<in>set row. cell = '' '' \<or> (\<exists>(c', x', y')\<in>set coords. cell = c')"
    using build_grid_tokens [of lim "text" g] ok ne unfolding coords by blast
  have ex: "decode_secret_message_from_text lim ''AB 0 0'' = Inr ''AB''"
    by (simp add: decode_defs)
  from ok dec r k row cells ex show ?thesis by blast
qed

text \<open>
  The token \<open>BCD\<close> at \<open>(1, 0)\<close>, between \<open>A\<close> and \<open>E\<close>.
\<close>

theorem whole_token_in_cell_witness:
  "[(''A'', 0 :: int, 0 :: int), (''BCD'', 1, 0), (''E'', 2, 0)]
     = parse_coords 4300 (''A 0 0'' @ [CHR 0x0A] @ ''BCD 1 0'' @ [CHR 0x0A] @ ''E 2 0'')
   \<and> decode_secret_message_from_text 4300
        (''A 0 0'' @ [CHR 0x0A] @ ''BCD 1 0'' @ [CHR 0x0A] @ ''E 2 0'') = Inr ''ABCDE''
   \<and> (\<exists>g. build_grid [(''A'', 0 :: int, 0 :: int), (''BCD'', 1, 0), (''E'', 2, 0)] = Inr g
          \<and> map concat g ! nat 0
              = concat (take (nat 1) (g ! nat 0)) @ ''BCD'' @ concat (drop (Suc (nat 1)) (g ! nat 0)))"
proof -
  let ?text = "''A 0 0'' @ [CHR 0x0A] @ ''BCD 1 0'' @ [CHR 0x0A] @ ''E 2 0''"
  let ?coords = "[(''A'', 0 :: int, 0 :: int), (''BCD'', 1, 0), (''E'', 2, 0)]"
  have h1: "?coords = parse_coords 4300 ?text" by (simp add: decode_defs)
  have h2: "\<forall>(c, x, y)\<in>set ?coords. 0 \<le> x \<and> 0 \<le> y" by simp
  have h3: "?coords = [(''A'', 0, 0)] @ (''BCD'', 1, 0) # [(''E'', 2, 0)]" by simp
  have h4: "\<forall>(c', x', y')\<in>set [(''E'', 2 :: int, 0 :: int)]. (x', y') \<noteq> (1, 0)" by simp
  have h5: "decode_secret_message_from_text 4300 ?text = Inr ''ABCDE''" by (simp add: decode_defs)
  from whole_token_in_cell [OF h1 h2 h3 h4, THEN conjunct1]
  have "\<exists>g. build_grid ?coords = Inr g
          \<and> map concat g ! nat 0
              = concat (take (nat 1) (g ! nat 0)) @ ''BCD'' @ concat (drop (Suc (nat 1)) (g ! nat 0))"
    by blast
  with h1 h5 show ?thesis by - (intro conjI; assumption)
qed

text \<open>
  C8 as the claim states it fails: \<open>AB 0 0\<close> is a valid line with a token of two
  characters, but after \<open>C 0 0\<close> the output is \<open>C\<close> and holds no \<open>AB\<close>; and for the
  valid line \<open>AB -1 0\<close> there is no output at all.
\<close>

theorem overwritten_token_counterexample:
  "parse_coords 4300 (''AB 0 0'' @ [CHR 0x0A] @ ''C 0 0'') = [(''AB'', 0, 0), (''C'', 0, 0)]
   \<and> decode_secret_message_from_text 4300 (''AB 0 0'' @ [CHR 0x0A] @ ''C 0 0'') = Inr ''C''
   \<and> parse_coords 4300 ''AB -1 0'' = [(''AB'', - 1, 0)]
   \<and> decode_secret_message_from_text 4300 ''AB -1 0'' = Inl IndexError"
  by (simp add: decode_defs)

text \<open>
  C10: when the valid entries of an input have no negative coordinate and pairwise
  distinct \<open>(x, y)\<close> pairs, a text with the same lines in another order decodes to the
  same result.
\<close>

theorem permuting_lines_keeps_output:
  assumes perm: "mset (str_splitlines text') = mset (str_splitlines text)"
    and nonneg: "\<forall>(c, x, y)\<in>set (parse_coords lim text). 0 \<le> x \<and> 0 \<le> y"
    and dist: "distinct (map (\<lambda>(c, x, y). (x, y)) (parse_coords lim text))"
  shows "decode_secret_message_from_text lim text' = decode_secret_message_from_text lim text"
proof -
  let ?es = "parse_coords lim text" and ?es' = "parse_coords lim text'"
  from perm have m: "mset ?es' = mset ?es"
    by (simp add: parse_coords_lines mset_collect_coords)
  show ?thesis
  proof (cases "?es = []")
    case True
    with m have "?es' = []" by simp
    with True show ?thesis by (simp add: decode_secret_message_from_text_def)
  next
    case False
    from m have "set ?es' = set ?es" by (rule mset_eq_setD)
    with False have ne': "?es' \<noteq> []" by auto
    from build_grid_permuted [OF m False nonneg dist] False ne'
    show ?thesis by (simp add: decode_secret_message_from_text_def render_coords_def)
  qed
qed

text \<open>
  The three lines \<open>H 0 0\<close>, \<open>I 1 0\<close>, \<open>W 0 1\<close> in reverse order.
\<close>

theorem permuting_lines_keeps_output_witness:
  "mset (str_splitlines (''W 0 1'' @ [CHR 0x0A] @ ''I 1 0'' @ [CHR 0x0A] @ ''H 0 0''))
     = mset (str_splitlines (''H 0 0'' @ [CHR 0x0A] @ ''I 1 0'' @ [CHR 0x0A] @ ''W 0 1''))
   \<and> parse_coords 4300 (''H 0 0'' @ [CHR 0x0A] @ ''I 1 0'' @ [CHR 0x0A] @ ''W 0 1'')
       = [(''H'', 0, 0), (''I'', 1, 0), (''W'', 0, 1)]
   \<and> decode_secret_message_from_text 4300
        (''W 0 1'' @ [CHR 0x0A] @ ''I 1 0'' @ [CHR 0x0A] @ ''H 0 0'')
      = decode_secret_message_from_text 4300
          (''H 0 0'' @ [CHR 0x0A] @ ''I 1 0'' @ [CHR 0x0A] @ ''W 0 1'')"
proof -
  let ?t = "''H 0 0'' @ [CHR 0x0A] @ ''I 1 0'' @ [CHR 0x0A] @ ''W 0 1''"
  let ?t' = "''W 0 1'' @ [CHR 0x0A] @ ''I 1 0'' @ [CHR 0x0A] @ ''H 0 0''"
  have h1: "mset (str_splitlines ?t') = mset (str_splitlines ?t)"
    by (simp add: str_splitlines_def is_linebreak_def)
  have h0: "parse_coords 4300 ?t = [(''H'', 0, 0), (''I'', 1, 0), (''W'', 0, 1)]"
    by (simp add: decode_defs)
  have h2: "\<forall>(c, x, y)\<in>set (parse_coords 4300 ?t). 0 \<le> x \<and> 0 \<le> y"
    unfolding h0 by simp
  have h3: "distinct (map (\<lambda>(c, x, y). (x, y)) (parse_coords 4300 ?t))"
    unfolding h0 by simp
  from permuting_lines_keeps_output [OF h1 h2 h3] h1 h0
  show ?thesis by - (intro conjI; assumption)
qed

end
